theory Spec2Isabelle
  imports Main "HOL-Library.Multiset"
begin

section \<open>The store: tables \<open>player\<close> and \<open>match\<close>\<close>

text \<open>
  \<open>tournament.py\<close> keeps no state of its own: every function opens a connection, runs
  one SQL statement and commits. The state is therefore the content of the store.
\<close>

text \<open>
  Modelled from the spec: the schema of the store (the table declarations) is not part of
  the Python source. Following the data model of the specification, table \<open>player\<close> has
  the columns \<open>id\<close> (assigned by the store from a sequence on insertion) and \<open>name\<close>,
  and table \<open>match\<close> has the columns \<open>winner\<close> and \<open>loser\<close>, both foreign keys into
  \<open>player.id\<close>. Rows are kept in insertion order; \<open>player_id_seq\<close> is the next value
  of the sequence behind \<open>player.id\<close>. No statement of the source reads any other column
  or sequence.
\<close>

record db =
  player :: "(int \<times> string) list"
  match :: "(int \<times> int) list"
  player_id_seq :: int

text \<open>
  Modelled from the spec: the store as the schema, absent from the source, provisions it:
  both tables empty, the sequence at its first value.
\<close>

definition empty_db :: db where
  "empty_db = \<lparr>player = [], match = [], player_id_seq = 1\<rparr>"

text \<open>
  The only failure the model keeps is the one the store raises for a violated foreign
  key (psycopg2 reports it as \<open>IntegrityError\<close>); the source neither catches nor
  translates it. Connectivity failures are outside the model.
\<close>

datatype error = IntegrityError

section \<open>The operations of \<open>tournament.py\<close>\<close>

text \<open>\<open>deleteMatches\<close>: \<^verbatim>\<open>TRUNCATE match RESTART IDENTITY\<close>.\<close>

definition deleteMatches :: "db \<Rightarrow> db" where
  "deleteMatches s = s\<lparr>match := []\<rparr>"

text \<open>
  \<open>deletePlayers\<close>: \<^verbatim>\<open>TRUNCATE player RESTART IDENTITY CASCADE\<close>. The cascade empties
  \<open>match\<close>, which references \<open>player\<close>; the sequence of \<open>player.id\<close> restarts.
\<close>

definition deletePlayers :: "db \<Rightarrow> db" where
  "deletePlayers s = s\<lparr>player := [], match := [], player_id_seq := 1\<rparr>"

text \<open>\<open>countPlayers\<close>: \<^verbatim>\<open>SELECT count(*) from player\<close>, first column of the one row.\<close>

definition countPlayers :: "db \<Rightarrow> int" where
  "countPlayers s = int (length (player s))"

text \<open>
  \<open>registerPlayer\<close>: \<^verbatim>\<open>INSERT INTO player (name) VALUES (%s)\<close>. The statement gives no
  id, so the store takes the next value of the sequence.
\<close>

definition registerPlayer :: "string \<Rightarrow> db \<Rightarrow> db" where
  "registerPlayer name s =
     s\<lparr>player := player s @ [(player_id_seq s, name)],
       player_id_seq := player_id_seq s + 1\<rparr>"

text \<open>
  Modelled from the spec: the foreign keys of \<open>match\<close> are declared in the schema, which
  is not part of the Python source. The store accepts a row of \<open>match\<close> when its winner
  and its loser are ids of rows of \<open>player\<close>.
\<close>

definition references_players :: "db \<Rightarrow> int \<times> int \<Rightarrow> bool" where
  "references_players s row =
     (fst row \<in> fst ` set (player s) \<and> snd row \<in> fst ` set (player s))"

text \<open>
  \<open>reportMatch\<close>: \<^verbatim>\<open>INSERT INTO match (winner, loser) VALUES (%s, %s)\<close>. The Python
  checks nothing: the row is appended unless the store rejects it, and then the exception
  passes to the caller and the store is as it was.
\<close>

definition reportMatch :: "int \<Rightarrow> int \<Rightarrow> db \<Rightarrow> error + db" where
  "reportMatch winner loser s =
     (if references_players s (winner, loser)
      then Inr (s\<lparr>match := match s @ [(winner, loser)]\<rparr>)
      else Inl IntegrityError)"

subsection \<open>\<open>playerStandings\<close>\<close>

text \<open>
  A row of the result: \<open>(id, name, wins, matches)\<close>. The two correlated subqueries of
  the \<open>SELECT\<close> list count rows of \<open>match\<close>:
  \<^verbatim>\<open>(SELECT COUNT(*) FROM match WHERE match.winner = player.id) wins\<close> and
  \<^verbatim>\<open>(SELECT COUNT(*) FROM match WHERE match.loser = player.id OR match.winner = player.id) matches\<close>.
\<close>

type_synonym standing = "int \<times> string \<times> int \<times> int"

definition wins_subquery :: "db \<Rightarrow> int \<Rightarrow> int" where
  "wins_subquery s pid = int (length (filter (\<lambda>(winner, loser). winner = pid) (match s)))"

definition matches_subquery :: "db \<Rightarrow> int \<Rightarrow> int" where
  "matches_subquery s pid =
     int (length (filter (\<lambda>(winner, loser). loser = pid \<or> winner = pid) (match s)))"

text \<open>\<^verbatim>\<open>SELECT ... FROM player\<close>: one result row for each row of \<open>player\<close>.\<close>

definition select_from_player :: "db \<Rightarrow> standing list" where
  "select_from_player s =
     map (\<lambda>(pid, name). (pid, name, wins_subquery s pid, matches_subquery s pid)) (player s)"

text \<open>
  \<^verbatim>\<open>ORDER BY wins DESC\<close>. SQL fixes the order of the result only as far as the sort key
  does: rows with equal wins come in an order of the store's choosing. The clause is
  therefore a relation between the rows selected and the sequence returned:
  \<open>order_by_wins_desc rows out\<close> holds when \<open>out\<close> holds the same rows, the same number of
  times, with wins never increasing.
\<close>

fun wins :: "standing \<Rightarrow> int" where
  "wins (pid, name, w, m) = w"

definition order_by_wins_desc :: "standing list \<Rightarrow> standing list \<Rightarrow> bool" where
  "order_by_wins_desc rows out =
     (mset out = mset rows \<and> sorted_wrt (\<lambda>a b. wins b \<le> wins a) out)"

text \<open>
  \<open>playerStandings s out\<close>: in store \<open>s\<close>, \<open>out\<close> is a list that \<open>cur.fetchall()\<close>
  may return for the query of \<open>playerStandings\<close>. The store is only read.
\<close>

definition playerStandings :: "db \<Rightarrow> standing list \<Rightarrow> bool" where
  "playerStandings s out = order_by_wins_desc (select_from_player s) out"

subsection \<open>\<open>swissPairings\<close>\<close>

text \<open>The slice \<open>xs[::2]\<close>; the slice \<open>xs[1::2]\<close> is \<open>slice2 (drop 1 xs)\<close>.\<close>

fun slice2 :: "'a list \<Rightarrow> 'a list" where
  "slice2 [] = []"
| "slice2 [x] = [x]"
| "slice2 (x # y # xs) = x # slice2 xs"

type_synonym pairing = "int \<times> string \<times> int \<times> string"

text \<open>
  The body of \<open>swissPairings\<close> after \<open>standings = playerStandings()\<close>: the loop over
  \<open>zip(standings[::2], standings[1::2])\<close>, appending \<open>(p1[0], p1[1], p2[0], p2[1])\<close>
  to \<open>matches\<close>, which starts empty. \<open>zip\<close> stops at the shorter list, in Python as in HOL.
\<close>

definition pairings :: "standing list \<Rightarrow> pairing list" where
  "pairings standings =
     fold (\<lambda>((id1, name1, w1, m1), (id2, name2, w2, m2)) matches.
             matches @ [(id1, name1, id2, name2)])
          (zip (slice2 standings) (slice2 (drop 1 standings))) []"

text \<open>
  \<open>swissPairings s ps\<close>: in store \<open>s\<close>, \<open>ps\<close> is a list that \<open>swissPairings()\<close> may
  return: the pairings of some list that \<open>playerStandings()\<close> may return.
\<close>

inductive swissPairings :: "db \<Rightarrow> pairing list \<Rightarrow> bool" where
  swissPairingsI: "playerStandings s standings \<Longrightarrow> swissPairings s (pairings standings)"

subsection \<open>Reachable stores\<close>

text \<open>
  The stores that calls of the four modifying functions produce from the empty store. A
  call of \<open>reportMatch\<close> that raises leaves the store unchanged and adds nothing.
\<close>

inductive reachable :: "db \<Rightarrow> bool" where
  reach_empty: "reachable empty_db"
| reach_register: "reachable s \<Longrightarrow> reachable (registerPlayer name s)"
| reach_report: "reachable s \<Longrightarrow> reportMatch winner loser s = Inr s' \<Longrightarrow> reachable s'"
| reach_deleteMatches: "reachable s \<Longrightarrow> reachable (deleteMatches s)"
| reach_deletePlayers: "reachable s \<Longrightarrow> reachable (deletePlayers s)"

subsection \<open>Reading the results\<close>

text \<open>The player of a standings row: its first two columns.\<close>

fun id_name :: "standing \<Rightarrow> int \<times> string" where
  "id_name (pid, name, w, m) = (pid, name)"

text \<open>The players of a list of pairings, in the order in which the list names them.\<close>

definition pair_players :: "pairing list \<Rightarrow> (int \<times> string) list" where
  "pair_players ps =
     concat (map (\<lambda>(id1, name1, id2, name2). [(id1, name1), (id2, name2)]) ps)"

section \<open>The pairing loop\<close>

lemma fold_snoc_map: "fold (\<lambda>x acc. acc @ [f x]) xs acc = acc @ map f xs"
  by (induction xs arbitrary: acc) simp_all

lemma slice2_Cons: "slice2 (y # xs) = y # slice2 (drop 1 xs)"
  by (cases xs) simp_all

lemma pairings_Nil: "pairings [] = []"
  by (simp add: pairings_def)

lemma pairings_single: "pairings [p] = []"
  by (simp add: pairings_def)

lemma pairings_step:
  "pairings ((id1, name1, w1, m1) # (id2, name2, w2, m2) # rest)
     = (id1, name1, id2, name2) # pairings rest"
proof -
  let ?f = "\<lambda>((id1, name1, w1, m1), (id2, name2, w2, m2)). (id1, name1, id2, name2) :: pairing"
  have eq: "(\<lambda>((id1, name1, w1::int, m1::int), (id2, name2, w2::int, m2::int)) matches.
             matches @ [(id1, name1, id2, name2)]) = (\<lambda>x acc. acc @ [?f x])"
    by (auto simp: fun_eq_iff)
  have p: "pairings xs = map ?f (zip (slice2 xs) (slice2 (drop 1 xs)))" for xs
    unfolding pairings_def eq by (simp add: fold_snoc_map)
  show ?thesis
    by (simp add: p slice2_Cons)
qed

lemma pairings_step_proj:
  "pairings (p1 # p2 # rest) = (fst p1, fst (snd p1), fst p2, fst (snd p2)) # pairings rest"
  by (cases p1, cases p2) (simp add: pairings_step)

lemmas pairings_simps = pairings_Nil pairings_single pairings_step_proj

lemma length_pairings: "length (pairings standings) = length standings div 2"
  by (induction standings rule: induct_list012) (simp_all add: pairings_simps)

lemma nth_pairings:
  "k < length standings div 2 \<Longrightarrow>
   pairings standings ! k =
     (fst (standings ! (2 * k)), fst (snd (standings ! (2 * k))),
      fst (standings ! (2 * k + 1)), fst (snd (standings ! (2 * k + 1))))"
proof (induction standings arbitrary: k rule: induct_list012)
  case (3 p1 p2 rest)
  then show ?case
    by (cases k) (simp_all add: pairings_simps)
qed simp_all

lemma pairings_butlast:
  "odd (length standings) \<Longrightarrow> pairings (butlast standings) = pairings standings"
proof (induction standings rule: induct_list012)
  case (3 p1 p2 rest)
  then have "rest \<noteq> []" by auto
  with 3 show ?case by (simp add: pairings_simps)
qed (simp_all add: pairings_simps)

lemma pair_players_pairings:
  "pair_players (pairings standings)
     = map id_name (take (2 * (length standings div 2)) standings)"
proof (induction standings rule: induct_list012)
  case (3 p1 p2 rest)
  then show ?case
    by (cases p1, cases p2) (simp add: pairings_step pair_players_def)
qed (simp_all add: pairings_simps pair_players_def)

lemma pair_players_even:
  "even (length standings) \<Longrightarrow> pair_players (pairings standings) = map id_name standings"
  by (simp add: pair_players_pairings)

lemma pair_players_odd:
  "odd (length standings) \<Longrightarrow>
   pair_players (pairings standings) = map id_name (butlast standings)"
  by (auto simp add: pair_players_pairings butlast_conv_take elim!: oddE)

text \<open>
  Claim C2. \<open>swissPairings\<close> takes the standings as already ranked and cuts them into
  consecutive pairs that do not overlap: there are \<open>length standings div 2\<close> pairs, and
  pair \<open>k\<close> (counted from 0) is made of the id and name of entry \<open>2 * k\<close> followed by the
  id and name of entry \<open>2 * k + 1\<close>, that is rank 1 with rank 2, rank 3 with rank 4, and
  so on. For the standings \<open>[(1,A,1,1), (2,B,1,1), (3,C,0,1), (4,D,0,1)]\<close> the result is
  exactly \<open>[(1,A,2,B), (3,C,4,D)]\<close>.
\<close>

theorem pairings_consecutive_pairs:
  "length (pairings standings) = length standings div 2 \<and>
   (\<forall>k < length standings div 2.
      pairings standings ! k =
        (fst (standings ! (2 * k)), fst (snd (standings ! (2 * k))),
         fst (standings ! (2 * k + 1)), fst (snd (standings ! (2 * k + 1))))) \<and>
   pairings [(1, ''A'', 1, 1), (2, ''B'', 1, 1), (3, ''C'', 0, 1), (4, ''D'', 0, 1)]
     = [(1, ''A'', 2, ''B''), (3, ''C'', 4, ''D'')]"
  by (simp add: length_pairings nth_pairings pairings_step pairings_Nil)

theorem pairings_consecutive_pairs_witness:
  "pairings [(7, ''G'', 2, 2), (5, ''E'', 1, 2), (6, ''F'', 1, 2), (8, ''H'', 0, 2)] ! 1
     = (6, ''F'', 8, ''H'')"
  using pairings_consecutive_pairs
    [of "[(7, ''G'', 2, 2), (5, ''E'', 1, 2), (6, ''F'', 1, 2), (8, ''H'', 0, 2)]"]
  by simp

text \<open>
  Claim C10. On standings with an odd number \<open>N\<close> of entries the loop raises nothing and
  gives nobody a bye: \<open>pairings\<close> is total, its result has \<open>(N - 1) div 2\<close> pairs, it is
  the result for the standings without their last entry, and the players it names are, in
  rank order, those of the first \<open>N - 1\<close> entries. The last entry is left out.
\<close>

theorem pairings_odd_drops_last:
  "odd (length standings) \<Longrightarrow>
   length (pairings standings) = (length standings - 1) div 2 \<and>
   pairings standings = pairings (butlast standings) \<and>
   pair_players (pairings standings) = map id_name (butlast standings)"
  by (auto simp add: length_pairings pairings_butlast pair_players_odd elim!: oddE)

theorem pairings_odd_drops_last_witness:
  "pairings [(1, ''A'', 1, 1), (2, ''B'', 1, 1), (3, ''C'', 0, 0)] = [(1, ''A'', 2, ''B'')] \<and>
   pair_players (pairings [(1, ''A'', 1, 1), (2, ''B'', 1, 1), (3, ''C'', 0, 0)])
     = [(1, ''A''), (2, ''B'')]"
  using pairings_odd_drops_last [of "[(1, ''A'', 1, 1), (2, ''B'', 1, 1), (3, ''C'', 0, 0)]"]
  by (simp add: pairings_step pairings_single pairings_Nil)

section \<open>Standings\<close>

lemmas standings_eval = playerStandings_def order_by_wins_desc_def select_from_player_def
  wins_subquery_def matches_subquery_def

lemma map_id_name_select: "map id_name (select_from_player s) = player s"
  by (simp add: select_from_player_def case_prod_unfold comp_def)

lemma length_select: "length (select_from_player s) = length (player s)"
  by (simp add: select_from_player_def)

lemma playerStandings_mset: "playerStandings s out \<Longrightarrow> mset out = mset (select_from_player s)"
  by (simp add: playerStandings_def order_by_wins_desc_def)

lemma playerStandings_sorted:
  "playerStandings s out \<Longrightarrow> sorted_wrt (\<lambda>a b. wins b \<le> wins a) out"
  by (simp add: playerStandings_def order_by_wins_desc_def)

lemma playerStandings_set: "playerStandings s out \<Longrightarrow> set out = set (select_from_player s)"
  by (metis playerStandings_mset mset_eq_setD)

lemma playerStandings_length: "playerStandings s out \<Longrightarrow> length out = length (player s)"
  by (metis playerStandings_mset mset_eq_length length_select)

lemma playerStandings_players:
  "playerStandings s out \<Longrightarrow> mset (map id_name out) = mset (player s)"
proof -
  assume "playerStandings s out"
  then have "mset out = mset (select_from_player s)"
    by (rule playerStandings_mset)
  then have "image_mset id_name (mset out) = image_mset id_name (mset (select_from_player s))"
    by simp
  then have "mset (map id_name out) = mset (map id_name (select_from_player s))"
    by simp
  then show ?thesis by (simp add: map_id_name_select)
qed

lemma playerStandings_entry:
  assumes "playerStandings s out" "(pid, name, w, m) \<in> set out"
  shows "(pid, name) \<in> set (player s) \<and> w = wins_subquery s pid \<and> m = matches_subquery s pid"
  using assms by (auto simp add: playerStandings_set select_from_player_def)

lemma playerStandings_returns: "\<exists>out. playerStandings s out"
proof
  let ?out = "sort_key (\<lambda>r. - wins r) (select_from_player s)"
  have "sorted (map (\<lambda>r. - wins r) ?out)" by simp
  then have "sorted_wrt (\<lambda>a b. wins b \<le> wins a) ?out"
    by (simp add: sorted_map)
  then show "playerStandings s ?out"
    by (simp add: playerStandings_def order_by_wins_desc_def)
qed

lemma wins_subquery_card:
  "wins_subquery s pid = int (card {k. k < length (match s) \<and> fst (match s ! k) = pid})"
  by (simp add: wins_subquery_def length_filter_conv_card case_prod_unfold)

lemma matches_subquery_card:
  "matches_subquery s pid =
     int (card {k. k < length (match s) \<and> (fst (match s ! k) = pid \<or> snd (match s ! k) = pid)})"
proof -
  have "{k. k < length (match s) \<and> (snd (match s ! k) = pid \<or> fst (match s ! k) = pid)}
      = {k. k < length (match s) \<and> (fst (match s ! k) = pid \<or> snd (match s ! k) = pid)}"
    by auto
  then show ?thesis
    by (simp add: matches_subquery_def length_filter_conv_card case_prod_unfold)
qed

lemma wins_le_matches: "wins_subquery s pid \<le> matches_subquery s pid"
proof -
  have "length (filter (\<lambda>(winner, loser). winner = pid) (match s))
      = length (filter (\<lambda>(winner, loser). winner = pid)
                  (filter (\<lambda>(winner, loser). loser = pid \<or> winner = pid) (match s)))"
    by (simp add: case_prod_unfold conj_commute cong: conj_cong)
  also have "\<dots> \<le> length (filter (\<lambda>(winner, loser). loser = pid \<or> winner = pid) (match s))"
    by (rule length_filter_le)
  finally show ?thesis
    by (simp add: wins_subquery_def matches_subquery_def)
qed

lemma playerStandings_no_matches:
  "match s = [] \<Longrightarrow> playerStandings s out \<Longrightarrow> (pid, name, w, m) \<in> set out \<Longrightarrow>
   w = 0 \<and> m = 0"
  using playerStandings_entry [of s out pid name w m]
  by (simp add: wins_subquery_def matches_subquery_def)

lemma reachable_ids:
  "reachable s \<Longrightarrow>
   distinct (map fst (player s)) \<and> (\<forall>p \<in> set (player s). fst p < player_id_seq s)"
proof (induction rule: reachable.induct)
  case reach_empty
  then show ?case by (simp add: empty_db_def)
next
  case (reach_register s name)
  then show ?case by (fastforce simp add: registerPlayer_def)
next
  case (reach_report s winner loser s')
  then have "player s' = player s" "player_id_seq s' = player_id_seq s"
    by (auto simp add: reportMatch_def split: if_splits)
  with reach_report.IH show ?case by simp
next
  case (reach_deleteMatches s)
  then show ?case by (simp add: deleteMatches_def)
next
  case (reach_deletePlayers s)
  then show ?case by (simp add: deletePlayers_def)
qed

text \<open>
  Claim C1. In every store \<open>playerStandings\<close> returns a list, and every list it may return
  has one entry \<open>(id, name, wins, matches)\<close> for each registered player (the ids and
  names of the entries are the rows of \<open>player\<close>, each as often as it is there); in the
  entry of player \<open>pid\<close>, wins is the number of rows of \<open>match\<close> whose winner is \<open>pid\<close>
  and matches is the number of rows whose winner or loser is \<open>pid\<close>; and wins never
  increase along the list.
\<close>

theorem playerStandings_per_player_counts:
  "(\<exists>out. playerStandings s out) \<and>
   (\<forall>out. playerStandings s out \<longrightarrow>
      mset (map id_name out) = mset (player s) \<and>
      (\<forall>(pid, name, w, m) \<in> set out.
         w = int (card {k. k < length (match s) \<and> fst (match s ! k) = pid}) \<and>
         m = int (card {k. k < length (match s) \<and>
                          (fst (match s ! k) = pid \<or> snd (match s ! k) = pid)})) \<and>
      (\<forall>i j. i < j \<and> j < length out \<longrightarrow> wins (out ! j) \<le> wins (out ! i)))"
proof (intro conjI allI impI)
  show "\<exists>out. playerStandings s out" by (rule playerStandings_returns)
next
  fix out assume "playerStandings s out"
  then show "mset (map id_name out) = mset (player s)" by (rule playerStandings_players)
next
  fix out assume ps: "playerStandings s out"
  show "\<forall>(pid, name, w, m) \<in> set out.
         w = int (card {k. k < length (match s) \<and> fst (match s ! k) = pid}) \<and>
         m = int (card {k. k < length (match s) \<and>
                          (fst (match s ! k) = pid \<or> snd (match s ! k) = pid)})"
    using playerStandings_entry [OF ps]
    by (auto simp add: wins_subquery_card matches_subquery_card)
next
  fix out i j assume ps: "playerStandings s out" and ij: "i < j \<and> j < length out"
  from playerStandings_sorted [OF ps] ij show "wins (out ! j) \<le> wins (out ! i)"
    by (simp add: sorted_wrt_iff_nth_less)
qed

theorem playerStandings_per_player_counts_witness:
  "playerStandings \<lparr>player = [(1, ''A''), (2, ''B'')], match = [(2, 1)], player_id_seq = 3\<rparr>
     [(2, ''B'', 1, 1), (1, ''A'', 0, 1)] \<and>
   int (card {k. k < length [(2::int, 1::int)] \<and> fst ([(2::int, 1::int)] ! k) = 2}) = 1"
proof -
  let ?s = "\<lparr>player = [(1, ''A''), (2, ''B'')], match = [(2, 1)], player_id_seq = 3\<rparr>"
  have ps: "playerStandings ?s [(2, ''B'', 1, 1), (1, ''A'', 0, 1)]"
    by (simp add: standings_eval)
  with playerStandings_per_player_counts [of ?s] show ?thesis
    by fastforce
qed

text \<open>
  Claim C4. In a store with \<open>N \<ge> 0\<close> registered players and no recorded match, every
  list \<open>playerStandings\<close> may return has exactly \<open>N\<close> entries, those of the registered
  players, each with wins 0 and matches 0.
\<close>

theorem standings_without_matches:
  "match s = [] \<Longrightarrow> playerStandings s out \<Longrightarrow>
   int (length out) = countPlayers s \<and>
   mset (map id_name out) = mset (player s) \<and>
   (\<forall>(pid, name, w, m) \<in> set out. w = 0 \<and> m = 0)"
  using playerStandings_no_matches [of s out] playerStandings_players [of s out]
  by (auto simp add: playerStandings_length countPlayers_def)

theorem standings_without_matches_witness:
  "playerStandings \<lparr>player = [(1, ''A''), (2, ''B''), (3, ''C'')], match = [], player_id_seq = 4\<rparr>
     [(3, ''C'', 0, 0), (1, ''A'', 0, 0), (2, ''B'', 0, 0)] \<and>
   countPlayers \<lparr>player = [(1, ''A''), (2, ''B''), (3, ''C'')], match = [], player_id_seq = 4\<rparr> = 3"
  using standings_without_matches
    [of "\<lparr>player = [(1, ''A''), (2, ''B''), (3, ''C'')], match = [], player_id_seq = 4\<rparr>"
        "[(3, ''C'', 0, 0), (1, ''A'', 0, 0), (2, ''B'', 0, 0)]"]
  by (simp add: standings_eval)

text \<open>
  Claim C6. \<open>deleteMatches\<close> leaves the result of \<open>countPlayers\<close> as it was and does not
  touch the rows of \<open>player\<close> (nor the sequence of its ids); afterwards
  \<open>playerStandings\<close> returns a list, and in every list it may return the entries are
  those of the registered players, each with wins 0 and matches 0.
\<close>

theorem deleteMatches_keeps_players:
  "countPlayers (deleteMatches s) = countPlayers s \<and>
   player (deleteMatches s) = player s \<and>
   player_id_seq (deleteMatches s) = player_id_seq s \<and>
   match (deleteMatches s) = [] \<and>
   (\<exists>out. playerStandings (deleteMatches s) out) \<and>
   (\<forall>out. playerStandings (deleteMatches s) out \<longrightarrow>
      mset (map id_name out) = mset (player s) \<and>
      (\<forall>(pid, name, w, m) \<in> set out. w = 0 \<and> m = 0))"
proof -
  have m: "match (deleteMatches s) = []" and p: "player (deleteMatches s) = player s"
    by (simp_all add: deleteMatches_def)
  have "\<forall>out. playerStandings (deleteMatches s) out \<longrightarrow>
      mset (map id_name out) = mset (player s) \<and>
      (\<forall>(pid, name, w, m) \<in> set out. w = 0 \<and> m = 0)"
    using playerStandings_no_matches [OF m] playerStandings_players [of "deleteMatches s"] p
    by auto
  then show ?thesis
    using playerStandings_returns [of "deleteMatches s"]
    by (simp add: deleteMatches_def countPlayers_def)
qed

theorem deleteMatches_keeps_players_witness:
  "countPlayers (deleteMatches \<lparr>player = [(1, ''A''), (2, ''B'')], match = [(1, 2), (1, 2)],
                                player_id_seq = 3\<rparr>) = 2 \<and>
   playerStandings (deleteMatches \<lparr>player = [(1, ''A''), (2, ''B'')], match = [(1, 2), (1, 2)],
                                   player_id_seq = 3\<rparr>)
     [(1, ''A'', 0, 0), (2, ''B'', 0, 0)]"
  using deleteMatches_keeps_players
    [of "\<lparr>player = [(1, ''A''), (2, ''B'')], match = [(1, 2), (1, 2)], player_id_seq = 3\<rparr>"]
  by (simp add: standings_eval deleteMatches_def countPlayers_def)

text \<open>
  Claim C7. In every store reachable by calls of \<open>registerPlayer\<close>, \<open>reportMatch\<close>,
  \<open>deleteMatches\<close> and \<open>deletePlayers\<close>, every entry of every list that
  \<open>playerStandings\<close> may return has wins at most matches.
\<close>

theorem wins_le_matches_reachable:
  "reachable s \<Longrightarrow> playerStandings s out \<Longrightarrow> (pid, name, w, m) \<in> set out \<Longrightarrow> w \<le> m"
  using playerStandings_entry [of s out pid name w m] wins_le_matches [of s pid]
  by simp

theorem wins_le_matches_reachable_witness:
  "reachable \<lparr>player = [(1, ''A'')], match = [(1, 1)], player_id_seq = 2\<rparr> \<and>
   playerStandings \<lparr>player = [(1, ''A'')], match = [(1, 1)], player_id_seq = 2\<rparr>
     [(1, ''A'', 1, 1)] \<and>
   (1::int) \<le> 1"
proof -
  let ?s = "\<lparr>player = [(1, ''A'')], match = [(1, 1)], player_id_seq = 2\<rparr>"
  have r0: "reachable (registerPlayer ''A'' empty_db)"
    by (rule reach_register [OF reach_empty])
  have "reportMatch 1 1 (registerPlayer ''A'' empty_db) = Inr ?s"
    by (simp add: reportMatch_def references_players_def registerPlayer_def empty_db_def)
  with r0 have r: "reachable ?s" by (rule reach_report)
  have ps: "playerStandings ?s [(1, ''A'', 1, 1)]"
    by (simp add: standings_eval)
  from wins_le_matches_reachable [OF r ps, of 1 "''A''" 1 1] r ps show ?thesis
    by simp
qed

section \<open>Recording a match\<close>

lemma select_after_insert:
  "select_from_player (s\<lparr>match := match s @ [(winner, loser)]\<rparr>)
     = map (\<lambda>(pid, name, w, m).
              (pid, name, w + (if pid = winner then 1 else 0),
               m + (if pid = loser \<or> pid = winner then 1 else 0)))
           (select_from_player s)"
  by (simp add: select_from_player_def wins_subquery_def matches_subquery_def
      case_prod_unfold comp_def)

lemma standings_after_insert:
  assumes "playerStandings s before"
    and "playerStandings (s\<lparr>match := match s @ [(winner, loser)]\<rparr>) after"
  shows "mset after =
     image_mset (\<lambda>(pid, name, w, m).
              (pid, name, w + (if pid = winner then 1 else 0),
               m + (if pid = loser \<or> pid = winner then 1 else 0))) (mset before)"
proof -
  have "mset after = mset (select_from_player (s\<lparr>match := match s @ [(winner, loser)]\<rparr>))"
    using assms(2) by (rule playerStandings_mset)
  also have "\<dots> = image_mset (\<lambda>(pid, name, w, m).
              (pid, name, w + (if pid = winner then 1 else 0),
               m + (if pid = loser \<or> pid = winner then 1 else 0)))
           (mset (select_from_player s))"
    by (simp only: select_after_insert mset_map)
  finally show ?thesis
    by (simp only: playerStandings_mset [OF assms(1)])
qed

lemma reportMatch_Inr:
  "reportMatch winner loser s = Inr s' \<longleftrightarrow>
     winner \<in> fst ` set (player s) \<and> loser \<in> fst ` set (player s) \<and>
     s' = s\<lparr>match := match s @ [(winner, loser)]\<rparr>"
  by (auto simp add: reportMatch_def references_players_def)

lemma playerStandings_ids:
  "playerStandings s out \<Longrightarrow> fst ` set out = fst ` set (player s)"
proof -
  assume "playerStandings s out"
  then have "set (map id_name out) = set (player s)"
    by (metis playerStandings_players mset_eq_setD)
  then have "fst ` set (map id_name out) = fst ` set (player s)" by simp
  moreover have "fst \<circ> id_name = fst" by (auto simp: fun_eq_iff)
  ultimately show ?thesis by (simp add: image_comp)
qed

text \<open>
  Claim C5, as amended. For player ids \<open>winner \<noteq> loser\<close> and a call
  \<open>reportMatch(winner, loser)\<close> that the store accepts, take any standings returned before
  the call and any returned after it. Both players have an entry, and the standings after
  are those before with the entry of \<open>winner\<close> changed to one more win and one more match,
  the entry of \<open>loser\<close> changed to one more match with wins as they were, and every other
  entry as it was (as multisets, the order among equal wins being the store's).
\<close>

theorem reportMatch_updates_standings:
  "winner \<noteq> loser \<Longrightarrow> reportMatch winner loser s = Inr s' \<Longrightarrow>
   playerStandings s before \<Longrightarrow> playerStandings s' after \<Longrightarrow>
   winner \<in> fst ` set before \<and> loser \<in> fst ` set before \<and>
   mset after =
     image_mset (\<lambda>(pid, name, w, m).
                   if pid = winner then (pid, name, w + 1, m + 1)
                   else if pid = loser then (pid, name, w, m + 1)
                   else (pid, name, w, m)) (mset before)"
proof -
  assume ne: "winner \<noteq> loser" and rep: "reportMatch winner loser s = Inr s'"
    and b: "playerStandings s before" and a: "playerStandings s' after"
  from rep have reg: "winner \<in> fst ` set (player s)" "loser \<in> fst ` set (player s)"
    and s': "s' = s\<lparr>match := match s @ [(winner, loser)]\<rparr>"
    by (simp_all add: reportMatch_Inr)
  have f: "(\<lambda>(pid, name, w::int, m::int).
              (pid, name, w + (if pid = winner then 1 else 0),
               m + (if pid = loser \<or> pid = winner then 1 else 0)))
         = (\<lambda>(pid, name, w, m).
                   if pid = winner then (pid, name, w + 1, m + 1)
                   else if pid = loser then (pid, name, w, m + 1)
                   else (pid, name, w, m))"
    using ne by (auto simp add: fun_eq_iff)
  from standings_after_insert [OF b a [unfolded s']] reg playerStandings_ids [OF b]
  show ?thesis by (simp add: f)
qed

theorem reportMatch_updates_standings_witness:
  "reportMatch 2 1 \<lparr>player = [(1, ''A''), (2, ''B''), (3, ''C'')], match = [(1, 3)], player_id_seq = 4\<rparr>
     = Inr \<lparr>player = [(1, ''A''), (2, ''B''), (3, ''C'')], match = [(1, 3), (2, 1)], player_id_seq = 4\<rparr> \<and>
   playerStandings \<lparr>player = [(1, ''A''), (2, ''B''), (3, ''C'')], match = [(1, 3)], player_id_seq = 4\<rparr>
     [(1, ''A'', 1, 1), (2, ''B'', 0, 0), (3, ''C'', 0, 1)] \<and>
   playerStandings \<lparr>player = [(1, ''A''), (2, ''B''), (3, ''C'')], match = [(1, 3), (2, 1)], player_id_seq = 4\<rparr>
     [(2, ''B'', 1, 1), (1, ''A'', 1, 2), (3, ''C'', 0, 1)]"
proof -
  let ?s = "\<lparr>player = [(1, ''A''), (2, ''B''), (3, ''C'')], match = [(1, 3)], player_id_seq = 4\<rparr>"
  let ?s' = "\<lparr>player = [(1, ''A''), (2, ''B''), (3, ''C'')], match = [(1, 3), (2, 1)], player_id_seq = 4\<rparr>"
  have ne: "(2::int) \<noteq> 1" by simp
  have rep: "reportMatch 2 1 ?s = Inr ?s'" by (simp add: reportMatch_def references_players_def)
  have b: "playerStandings ?s [(1, ''A'', 1, 1), (2, ''B'', 0, 0), (3, ''C'', 0, 1)]"
    by (simp add: standings_eval)
  have a: "playerStandings ?s' [(2, ''B'', 1, 1), (1, ''A'', 1, 2), (3, ''C'', 0, 1)]"
    by (simp add: standings_eval)
  from reportMatch_updates_standings [OF ne rep b a] rep b a show ?thesis
    by simp
qed

text \<open>
  Claim C5 as stated, for every pair of ids, fails where winner and loser are the same
  player. With one registered player, id 1, \<open>reportMatch(1, 1)\<close> is accepted; before it the
  standings are \<open>[(1, A, 0, 0)]\<close>, after it they are \<open>[(1, A, 1, 1)]\<close>: the wins of the
  loser have changed, and the entry \<open>(1, A, 0, 1)\<close> that the claim gives the loser (one more
  match, wins unchanged) is not what \<open>playerStandings\<close> returns.
\<close>

theorem reportMatch_loser_wins_counterexample:
  "registerPlayer ''A'' empty_db = \<lparr>player = [(1, ''A'')], match = [], player_id_seq = 2\<rparr> \<and>
   reportMatch 1 1 \<lparr>player = [(1, ''A'')], match = [], player_id_seq = 2\<rparr>
     = Inr \<lparr>player = [(1, ''A'')], match = [(1, 1)], player_id_seq = 2\<rparr> \<and>
   playerStandings \<lparr>player = [(1, ''A'')], match = [], player_id_seq = 2\<rparr> [(1, ''A'', 0, 0)] \<and>
   playerStandings \<lparr>player = [(1, ''A'')], match = [(1, 1)], player_id_seq = 2\<rparr> [(1, ''A'', 1, 1)] \<and>
   \<not> playerStandings \<lparr>player = [(1, ''A'')], match = [(1, 1)], player_id_seq = 2\<rparr> [(1, ''A'', 0, 1)]"
  by (simp add: registerPlayer_def empty_db_def reportMatch_def references_players_def
      standings_eval)

text \<open>
  Claim C9. \<open>reportMatch(p, p)\<close> for a registered player \<open>p\<close> is accepted: nothing
  compares winner and loser, and the row \<open>(p, p)\<close> is appended to \<open>match\<close>. For any
  standings returned before and any returned after, \<open>p\<close> has an entry, and the standings
  after are those before with the entry of \<open>p\<close> changed to one more win and one more
  match (one, not two: the matches subquery counts rows, and the row \<open>(p, p)\<close> is one row)
  and every other entry as it was.
\<close>

theorem reportMatch_self_match:
  "p \<in> fst ` set (player s) \<Longrightarrow>
   reportMatch p p s = Inr (s\<lparr>match := match s @ [(p, p)]\<rparr>) \<and>
   (\<forall>before after.
      playerStandings s before \<and> playerStandings (s\<lparr>match := match s @ [(p, p)]\<rparr>) after \<longrightarrow>
      p \<in> fst ` set before \<and>
      mset after =
        image_mset (\<lambda>(pid, name, w, m).
                      if pid = p then (pid, name, w + 1, m + 1) else (pid, name, w, m))
                   (mset before))"
proof (intro conjI allI impI)
  assume reg: "p \<in> fst ` set (player s)"
  then show "reportMatch p p s = Inr (s\<lparr>match := match s @ [(p, p)]\<rparr>)"
    by (simp add: reportMatch_def references_players_def)
  fix before after
  assume ba: "playerStandings s before \<and> playerStandings (s\<lparr>match := match s @ [(p, p)]\<rparr>) after"
  then have "fst ` set before = fst ` set (player s)"
    by (simp add: playerStandings_ids)
  with reg show "p \<in> fst ` set before" by simp
  have f: "(\<lambda>(pid, name, w::int, m::int).
              (pid, name, w + (if pid = p then 1 else 0),
               m + (if pid = p \<or> pid = p then 1 else 0)))
         = (\<lambda>(pid, name, w, m).
                   if pid = p then (pid, name, w + 1, m + 1) else (pid, name, w, m))"
    by (auto simp add: fun_eq_iff)
  from ba have b: "playerStandings s before"
    and a: "playerStandings (s\<lparr>match := match s @ [(p, p)]\<rparr>) after"
    by simp_all
  from standings_after_insert [OF b a]
  show "mset after =
        image_mset (\<lambda>(pid, name, w, m).
                      if pid = p then (pid, name, w + 1, m + 1) else (pid, name, w, m))
                   (mset before)"
    by (simp only: f)
qed


theorem reportMatch_self_match_witness:
  "reportMatch 2 2 \<lparr>player = [(1, ''A''), (2, ''B'')], match = [(2, 1)], player_id_seq = 3\<rparr>
     = Inr \<lparr>player = [(1, ''A''), (2, ''B'')], match = [(2, 1), (2, 2)], player_id_seq = 3\<rparr> \<and>
   playerStandings \<lparr>player = [(1, ''A''), (2, ''B'')], match = [(2, 1)], player_id_seq = 3\<rparr>
     [(2, ''B'', 1, 1), (1, ''A'', 0, 1)] \<and>
   playerStandings \<lparr>player = [(1, ''A''), (2, ''B'')], match = [(2, 1), (2, 2)], player_id_seq = 3\<rparr>
     [(2, ''B'', 2, 2), (1, ''A'', 0, 1)]"
proof -
  let ?s = "\<lparr>player = [(1, ''A''), (2, ''B'')], match = [(2, 1)], player_id_seq = 3\<rparr>"
  have reg: "2 \<in> fst ` set (player ?s)" by simp
  have b: "playerStandings ?s [(2, ''B'', 1, 1), (1, ''A'', 0, 1)]"
    by (simp add: standings_eval)
  have a: "playerStandings (?s\<lparr>match := match ?s @ [(2, 2)]\<rparr>) [(2, ''B'', 2, 2), (1, ''A'', 0, 1)]"
    by (simp add: standings_eval)
  from reportMatch_self_match [OF reg] b a show ?thesis
    by simp
qed

section \<open>Pairing the standings of the store\<close>

lemma swissPairings_iff:
  "swissPairings s ps \<longleftrightarrow> (\<exists>standings. playerStandings s standings \<and> ps = pairings standings)"
  by (auto intro: swissPairingsI elim: swissPairings.cases)

lemma swissPairings_returns: "\<exists>ps. swissPairings s ps"
  using playerStandings_returns [of s] by (auto intro: swissPairingsI)

lemma swissPairings_length:
  "swissPairings s ps \<Longrightarrow> length ps = length (player s) div 2"
  by (auto simp add: swissPairings_iff length_pairings playerStandings_length)

lemma swissPairings_players_even:
  "swissPairings s ps \<Longrightarrow> even (length (player s)) \<Longrightarrow>
   mset (pair_players ps) = mset (player s)"
proof -
  assume "swissPairings s ps" and ev: "even (length (player s))"
  then obtain standings where st: "playerStandings s standings" and ps: "ps = pairings standings"
    by (auto simp add: swissPairings_iff)
  from st ev have "even (length standings)" by (simp add: playerStandings_length)
  then have "pair_players ps = map id_name standings"
    by (simp add: ps pair_players_even)
  with playerStandings_players [OF st] show ?thesis by simp
qed

text \<open>
  Claim C3. In a reachable store with an even number \<open>N\<close> of registered players,
  \<open>swissPairings\<close> returns a list, and every list it may return has \<open>N div 2\<close> pairs
  whose players are exactly the registered players, each once: the ids named by the pairs
  are pairwise distinct and are the ids of all rows of \<open>player\<close>.
\<close>

theorem swissPairings_partition:
  "reachable s \<Longrightarrow> even (countPlayers s) \<Longrightarrow>
   (\<exists>ps. swissPairings s ps) \<and>
   (\<forall>ps. swissPairings s ps \<longrightarrow>
      int (length ps) = countPlayers s div 2 \<and>
      mset (pair_players ps) = mset (player s) \<and>
      distinct (map fst (pair_players ps)) \<and>
      set (map fst (pair_players ps)) = fst ` set (player s))"
proof (intro conjI allI impI)
  show "\<exists>ps. swissPairings s ps" by (rule swissPairings_returns)
next
  fix ps
  assume r: "reachable s" and "even (countPlayers s)" and sp: "swissPairings s ps"
  then have ev: "even (length (player s))" by (simp add: countPlayers_def)
  from sp show "int (length ps) = countPlayers s div 2"
    by (simp add: swissPairings_length countPlayers_def zdiv_int)
  from sp ev show m: "mset (pair_players ps) = mset (player s)"
    by (rule swissPairings_players_even)
  then have mf: "mset (map fst (pair_players ps)) = mset (map fst (player s))"
    by (metis mset_map)
  from reachable_ids [OF r] have "distinct (map fst (player s))" by simp
  with mf show "distinct (map fst (pair_players ps))"
    by (metis mset_eq_imp_distinct_iff)
  from mf have "set (map fst (pair_players ps)) = set (map fst (player s))"
    by (rule mset_eq_setD)
  then show "set (map fst (pair_players ps)) = fst ` set (player s)" by simp
qed

theorem swissPairings_partition_witness:
  "reachable (registerPlayer ''B'' (registerPlayer ''A'' empty_db)) \<and>
   countPlayers (registerPlayer ''B'' (registerPlayer ''A'' empty_db)) = 2 \<and>
   swissPairings (registerPlayer ''B'' (registerPlayer ''A'' empty_db)) [(2, ''B'', 1, ''A'')] \<and>
   pair_players [(2, ''B'', 1, ''A'')] = [(2, ''B''), (1, ''A'')]"
proof -
  let ?s = "registerPlayer ''B'' (registerPlayer ''A'' empty_db)"
  have r: "reachable ?s" by (intro reach_register reach_empty)
  have c: "countPlayers ?s = 2" by (simp add: countPlayers_def registerPlayer_def empty_db_def)
  then have ev: "even (countPlayers ?s)" by simp
  have "playerStandings ?s [(2, ''B'', 0, 0), (1, ''A'', 0, 0)]"
    by (simp add: standings_eval registerPlayer_def empty_db_def)
  then have "swissPairings ?s (pairings [(2, ''B'', 0, 0), (1, ''A'', 0, 0)])"
    by (rule swissPairingsI)
  then have sp: "swissPairings ?s [(2, ''B'', 1, ''A'')]"
    by (simp add: pairings_step pairings_Nil)
  from swissPairings_partition [OF r ev] r c sp show ?thesis
    by (simp add: pair_players_def)
qed




end
